theory Spec2Isabelle
  imports Main "HOL-Library.Char_ord"
begin

section \<open>JavaScript strings\<close>

text \<open>
  A JavaScript string is modelled as a \<open>string\<close>: a list of characters, each a code
  unit below 256. The character classes of the regular expressions the source uses
  (\<open>[a-zA-Z]\<close>, \<open>\d\<close>) are ASCII classes in JavaScript too. Whitespace (\<open>\s\<close>,
  \<open>trim\<close>) is, among the code units below 256, tab, line feed, vertical tab, form feed,
  carriage return, space and the no-break space U+00A0. Case conversion is modelled on
  its ASCII part. A JavaScript
  object used as a dictionary (\<open>Record<string, T>\<close>) is modelled by its own properties,
  as a map or an association list; keys that collide with members of
  \<open>Object.prototype\<close> are outside the model.
\<close>

definition isLetter :: "char \<Rightarrow> bool" where
  "isLetter c = ((CHR ''a'' \<le> c \<and> c \<le> CHR ''z'') \<or> (CHR ''A'' \<le> c \<and> c \<le> CHR ''Z''))"

definition isDigit :: "char \<Rightarrow> bool" where
  "isDigit c = (CHR ''0'' \<le> c \<and> c \<le> CHR ''9'')"

definition isSpace :: "char \<Rightarrow> bool" where
  "isSpace c = (c = CHR 0x09 \<or> c = CHR 0x0A \<or> c = CHR 0x0B \<or> c = CHR 0x0C \<or> c = CHR 0x0D
     \<or> c = CHR '' '' \<or> c = CHR 0xA0)"

definition lowerLetters :: string where
  "lowerLetters = ''abcdefghijklmnopqrstuvwxyz''"

definition upperLetters :: string where
  "upperLetters = ''ABCDEFGHIJKLMNOPQRSTUVWXYZ''"

definition upperChar :: "char \<Rightarrow> char" where
  "upperChar c = (case map_of (zip lowerLetters upperLetters) c of Some u \<Rightarrow> u | None \<Rightarrow> c)"

definition lowerChar :: "char \<Rightarrow> char" where
  "lowerChar c = (case map_of (zip upperLetters lowerLetters) c of Some l \<Rightarrow> l | None \<Rightarrow> c)"

definition toUpperCase :: "string \<Rightarrow> string" where
  "toUpperCase s = map upperChar s"

definition toLowerCase :: "string \<Rightarrow> string" where
  "toLowerCase s = map lowerChar s"

text \<open>\<open>s.trim()\<close>: leading and trailing whitespace removed.\<close>

definition trim :: "string \<Rightarrow> string" where
  "trim s = rev (dropWhile isSpace (rev (dropWhile isSpace s)))"

text \<open>\<open>s.substring(0, n)\<close>.\<close>

definition substring0 :: "nat \<Rightarrow> string \<Rightarrow> string" where
  "substring0 n s = take n s"

text \<open>\<open>s.padEnd(n, c)\<close> for a one-character pad string.\<close>

definition padEnd :: "nat \<Rightarrow> char \<Rightarrow> string \<Rightarrow> string" where
  "padEnd n c s = s @ replicate (n - length s) c"

text \<open>
  \<open>s.match(/\d+/)\<close>: \<open>null\<close> (here \<open>None\<close>) when \<open>s\<close> has no digit, else the match
  array, whose element 0 is the first maximal run of digits.
\<close>

definition matchDigits :: "string \<Rightarrow> string option" where
  "matchDigits s =
     (let r = dropWhile (\<lambda>c. \<not> isDigit c) s
      in if r = [] then None else Some (takeWhile isDigit r))"

text \<open>
  \<open>s.split(/\s+/)\<close>: the pieces between the maximal runs of whitespace, the empty
  pieces before a leading run and after a trailing run included.
\<close>

function splitAcc :: "string \<Rightarrow> string \<Rightarrow> string list" where
  "splitAcc cur [] = [rev cur]"
| "splitAcc cur (c # cs) =
     (if isSpace c then rev cur # splitAcc [] (dropWhile isSpace cs)
      else splitAcc (c # cur) cs)"
  by pat_completeness auto
termination
  by (relation "measure (\<lambda>(cur, s). length s)")
     (auto simp: length_dropWhile_le less_Suc_eq_le)

definition splitWhitespace :: "string \<Rightarrow> string list" where
  "splitWhitespace s = splitAcc [] s"

text \<open>\<open>parts.join(sep)\<close>.\<close>

fun joinWith :: "string \<Rightarrow> string list \<Rightarrow> string" where
  "joinWith sep [] = []"
| "joinWith sep [p] = p"
| "joinWith sep (p # q # ps) = p @ sep @ joinWith sep (q # ps)"

section \<open>SKU preview (\<open>generateSkuPreview\<close>, AddProductPage.tsx)\<close>

text \<open>
  The body of the \<open>words.forEach\<close> callback: the pair is the state of the two
  accumulators \<open>initials\<close> and \<open>numbers\<close>.
\<close>

definition scanWord :: "string \<times> string \<Rightarrow> string \<Rightarrow> string \<times> string" where
  "scanWord acc word =
     (case acc of (initials, numbers) \<Rightarrow>
        (let initials' = (case word of
                            [] \<Rightarrow> initials
                          | c # _ \<Rightarrow> if isLetter c then initials @ [c] else initials);
             numbers' = (case matchDigits word of
                           None \<Rightarrow> numbers
                         | Some d \<Rightarrow> numbers @ d)
         in (initials', numbers')))"

text \<open>The accumulators after the loop over the words of the cleaned product name.\<close>

definition skuInitialsNumbers :: "string \<Rightarrow> string \<times> string" where
  "skuInitialsNumbers productName =
     (let cleaned = filter (\<lambda>c. isLetter c \<or> isDigit c \<or> isSpace c) productName;
          words = filter (\<lambda>w. w \<noteq> []) (splitWhitespace cleaned)
      in foldl scanWord ([], []) words)"

text \<open>\<open>let code = (initials + numbers).substring(0, 10)\<close>.\<close>

definition skuCodeRaw :: "string \<Rightarrow> string" where
  "skuCodeRaw productName =
     (case skuInitialsNumbers productName of
        (initials, numbers) \<Rightarrow> substring0 10 (initials @ numbers))"

text \<open>\<open>if (code.length < 2) code = code.padEnd(4, 'P')\<close>.\<close>

definition skuCode :: "string \<Rightarrow> string" where
  "skuCode productName =
     (let code = skuCodeRaw productName
      in if length code < 2 then padEnd 4 (CHR ''P'') code else code)"

text \<open>
  An optional argument is \<open>None\<close> when it is \<open>undefined\<close>; \<open>if (color)\<close> is false for
  \<open>undefined\<close> and for the empty string.
\<close>

definition colorParts :: "string option \<Rightarrow> string list" where
  "colorParts color =
     (case color of
        None \<Rightarrow> []
      | Some c \<Rightarrow>
          if c = [] then []
          else (let colorCode = (if length c \<le> 5 then substring0 3 c else substring0 3 c)
                in [toUpperCase colorCode]))"

definition sizeMap :: "(string \<times> string) list" where
  "sizeMap =
     [(''extra small'', ''XS''), (''small'', ''S''), (''medium'', ''M''),
      (''large'', ''L''), (''extra large'', ''XL''), (''xxl'', ''XXL'')]"

definition sizeParts :: "string option \<Rightarrow> string list" where
  "sizeParts size' =
     (case size' of
        None \<Rightarrow> []
      | Some s \<Rightarrow>
          if s = [] then []
          else (let sizeLower = trim (toLowerCase s);
                    sizeCode = (case map_of sizeMap sizeLower of
                                  Some code \<Rightarrow> code
                                | None \<Rightarrow> (case matchDigits s of
                                             Some d \<Rightarrow> d
                                           | None \<Rightarrow> substring0 3 s))
                in [toUpperCase sizeCode]))"

definition generateSkuPreview :: "string \<Rightarrow> string option \<Rightarrow> string option \<Rightarrow> string" where
  "generateSkuPreview productName color size' =
     (if trim productName = [] then ''PROD''
      else (let parts = [toUpperCase (skuCode productName)] @ colorParts color @ sizeParts size'
            in joinWith ''-'' parts))"

section \<open>Product listing: inventory cache and expandable rows (LoginPage.tsx)\<close>

text \<open>
  The interfaces \<open>ProductVariant\<close> and \<open>InventoryData\<close>. Quantities are JavaScript
  numbers holding integers; they are modelled as unbounded integers.
\<close>

record ProductVariant =
  sku :: string
  variantColor :: "string option"
  variantSize :: "string option"
  initial_stock :: "int option"

record InventoryData =
  inventorySku :: string
  quantityAvailable :: int
  quantityReserved :: int

type_synonym InventoryCache = "string \<Rightarrow> InventoryData option"

subsection \<open>Stock badge\<close>

text \<open>
  \<open>StockBadge\<close> renders one of three badges: \<open>error\<close> (Out of Stock), \<open>warning\<close> (Low)
  and \<open>success\<close>; the model returns which one.
\<close>

datatype StockStatus = OutOfStock | Low | InStock

definition StockBadge :: "int \<Rightarrow> StockStatus" where
  "StockBadge quantity =
     (if quantity = 0 then OutOfStock
      else if quantity < 10 then Low
      else InStock)"

subsection \<open>Aggregation over the cache\<close>

text \<open>\<open>inv?.quantityAvailable || 0\<close>: 0 for a missing record and for a falsy quantity.\<close>

definition availableOrZero :: "InventoryData option \<Rightarrow> int" where
  "availableOrZero inv' =
     (case inv' of
        None \<Rightarrow> 0
      | Some i \<Rightarrow> if quantityAvailable i = 0 then 0 else quantityAvailable i)"

definition getTotalStock :: "InventoryCache \<Rightarrow> ProductVariant list \<Rightarrow> int" where
  "getTotalStock cache variants =
     (if length variants = 0 then 0
      else foldl (\<lambda>sum' variant.
                    let inv' = cache (sku variant) in sum' + availableOrZero inv')
             0 variants)"

definition hasInventoryLoaded :: "InventoryCache \<Rightarrow> ProductVariant list \<Rightarrow> bool" where
  "hasInventoryLoaded cache variants =
     (if length variants = 0 then True
      else list_all (\<lambda>v. sku v \<in> dom cache) variants)"

subsection \<open>Page state and \<open>toggleExpand\<close>\<close>

text \<open>
  \<open>toggleExpand\<close> is an \<open>async\<close> function with one \<open>await\<close>, on
  \<open>inventoryApi.getBatch(skusToFetch)\<close>. It is modelled in two halves: \<open>toggleExpand\<close>
  runs from the click to the \<open>await\<close> (or to the end, when the \<open>await\<close> is not reached),
  and \<open>toggleExpandResume\<close> runs from the settled promise to the end. Between the two
  the call is an in-flight request, which keeps what the suspended call holds in its
  local variables: \<open>productId\<close>, \<open>skusToFetch\<close> and \<open>newExpanded\<close>.

  The state is the three React state variables of the page, the in-flight requests, and
  the list of the arguments of every \<open>getBatch\<close> call made so far. A click handler reads
  the state of the latest render, which is the current state: React renders after each
  event before the next one is handled. \<open>inventoryApi.getBatch\<close> itself is the backend
  call; its outcome is an input of the model: a response object, or a rejection.
\<close>

record FetchRequest =
  reqProductId :: string
  reqSkus :: "string list"
  reqNewExpanded :: "string set"

record PageState =
  expandedProducts :: "string set"
  loadingInventory :: "string set"
  inventoryCache :: InventoryCache
  inFlight :: "FetchRequest list"
  getBatchCalls :: "string list list"

datatype FetchResult = Resolved InventoryCache | Rejected

definition initialState :: PageState where
  "initialState =
     \<lparr>expandedProducts = {}, loadingInventory = {}, inventoryCache = Map.empty,
      inFlight = [], getBatchCalls = []\<rparr>"

text \<open>
  \<open>variants.filter((v) => v.sku && !inventoryCache[v.sku]).map((v) => v.sku)\<close>: an empty
  SKU is falsy, and a cached record is an object, which is truthy.
\<close>

definition skusToFetch :: "InventoryCache \<Rightarrow> ProductVariant list \<Rightarrow> string list" where
  "skusToFetch cache variants =
     map sku (filter (\<lambda>v. sku v \<noteq> [] \<and> cache (sku v) = None) variants)"

definition toggleExpand :: "PageState \<Rightarrow> string \<Rightarrow> ProductVariant list \<Rightarrow> PageState" where
  "toggleExpand s productId variants =
     (if productId \<in> expandedProducts s
      then s\<lparr>expandedProducts := expandedProducts s - {productId}\<rparr>
      else (let newExpanded = insert productId (expandedProducts s);
                toFetch = skusToFetch (inventoryCache s) variants
            in if length toFetch > 0
               then s\<lparr>loadingInventory := insert productId (loadingInventory s),
                      inFlight := inFlight s @
                        [\<lparr>reqProductId = productId, reqSkus = toFetch,
                          reqNewExpanded = newExpanded\<rparr>],
                      getBatchCalls := getBatchCalls s @ [toFetch]\<rparr>
               else s\<lparr>expandedProducts := newExpanded\<rparr>))"

text \<open>
  The rest of the call whose request is number \<open>i\<close> of the in-flight ones: the \<open>try\<close>
  block merges the response into the cache, the \<open>catch\<close> block only logs, the
  \<open>finally\<close> block removes the product from \<open>loadingInventory\<close>, and the last statement
  stores the \<open>newExpanded\<close> computed before the \<open>await\<close>.
\<close>

definition toggleExpandResume :: "PageState \<Rightarrow> nat \<Rightarrow> FetchResult \<Rightarrow> PageState" where
  "toggleExpandResume s i result =
     (if i < length (inFlight s)
      then (let r = inFlight s ! i;
                s1 = (case result of
                        Resolved inventoryData \<Rightarrow>
                          s\<lparr>inventoryCache := inventoryCache s ++ inventoryData\<rparr>
                      | Rejected \<Rightarrow> s);
                s2 = s1\<lparr>loadingInventory := loadingInventory s1 - {reqProductId r}\<rparr>
            in s2\<lparr>expandedProducts := reqNewExpanded r,
                  inFlight := take i (inFlight s) @ drop (Suc i) (inFlight s)\<rparr>)
      else s)"

text \<open>
  The interleavings of the page: a user toggles a row, or an in-flight request settles.
\<close>

datatype Event = Toggle string "ProductVariant list" | Settle nat FetchResult

fun step :: "PageState \<Rightarrow> Event \<Rightarrow> PageState" where
  "step s (Toggle productId variants) = toggleExpand s productId variants"
| "step s (Settle i result) = toggleExpandResume s i result"

fun run :: "PageState \<Rightarrow> Event list \<Rightarrow> PageState" where
  "run s [] = s"
| "run s (e # es) = run (step s e) es"

subsection \<open>Example data and the invariant of the in-flight requests\<close>

text \<open>A variant that has only its SKU, and an inventory record, for the examples.\<close>

definition variantOf :: "string \<Rightarrow> ProductVariant" where
  "variantOf k = \<lparr>sku = k, variantColor = None, variantSize = None, initial_stock = None\<rparr>"

definition stockRecord :: "string \<Rightarrow> int \<Rightarrow> int \<Rightarrow> InventoryData" where
  "stockRecord k available reserved =
     \<lparr>inventorySku = k, quantityAvailable = available, quantityReserved = reserved\<rparr>"

text \<open>
  Every suspended call holds a non-empty list of SKUs, and a \<open>newExpanded\<close> that
  contains its own product.
\<close>

definition requestsOk :: "PageState \<Rightarrow> bool" where
  "requestsOk s = list_all (\<lambda>r. reqProductId r \<in> reqNewExpanded r \<and> reqSkus r \<noteq> []) (inFlight s)"

section \<open>Properties of the SKU preview\<close>

lemmas sku_eval =
  generateSkuPreview_def skuCode_def skuCodeRaw_def skuInitialsNumbers_def scanWord_def
  splitWhitespace_def matchDigits_def trim_def isSpace_def isLetter_def isDigit_def
  substring0_def padEnd_def toUpperCase_def toLowerCase_def upperChar_def lowerChar_def
  upperLetters_def lowerLetters_def colorParts_def sizeParts_def sizeMap_def Let_def

lemma joinWith_take: "take (length p) (joinWith sep (p # ps)) = p"
  by (cases ps) simp_all

lemma trim_all_space:
  assumes "list_all isSpace s"
  shows "trim s = []"
  using assms by (auto simp: trim_def list_all_iff dest: set_dropWhileD)

lemma toUpperCase_pad:
  "toUpperCase (s @ replicate n (CHR ''P'')) = toUpperCase s @ replicate n (CHR ''P'')"
  by (simp add: toUpperCase_def upperChar_def lowerLetters_def upperLetters_def)

lemma length_toUpperCase: "length (toUpperCase s) = length s"
  by (simp add: toUpperCase_def)

text \<open>
  Claim C2, as the specification states it: for the product name
  \<open>Classic Cotton T-Shirt 2\<close>, colour \<open>Red\<close> and size \<open>Large\<close> the initials are
  \<open>CCTS\<close> and the result is \<open>CCTS2-RED-L\<close>. The source removes the hyphen before it
  splits the name into words, so \<open>T-Shirt\<close> is the single word \<open>TShirt\<close> and gives
  one initial: the stated result is not what the code returns.
\<close>

theorem generateSku_example_counterexample:
  "generateSkuPreview ''Classic Cotton T-Shirt 2'' (Some ''Red'') (Some ''Large'')
     \<noteq> ''CCTS2-RED-L''"
  by (simp add: sku_eval)

text \<open>
  Claim C2, amended: for the product name \<open>Classic Cotton T-Shirt 2\<close>, colour \<open>Red\<close>
  and size \<open>Large\<close> the initials are \<open>CCT\<close> and the numbers \<open>2\<close>, the base segment is
  \<open>CCT2\<close>, the colour segment \<open>RED\<close>, the size segment \<open>L\<close>, and the result is
  \<open>CCT2-RED-L\<close>.
\<close>

theorem generateSku_example:
  "skuInitialsNumbers ''Classic Cotton T-Shirt 2'' = (''CCT'', ''2'')
   \<and> toUpperCase (skuCode ''Classic Cotton T-Shirt 2'') = ''CCT2''
   \<and> colorParts (Some ''Red'') = [''RED'']
   \<and> sizeParts (Some ''Large'') = [''L'']
   \<and> generateSkuPreview ''Classic Cotton T-Shirt 2'' (Some ''Red'') (Some ''Large'')
       = ''CCT2-RED-L''"
  by (simp add: sku_eval)

text \<open>
  Claim C3, as the specification states it: the empty product name with no colour and
  no size gives the padded code \<open>PPPP\<close>. The source returns \<open>PROD\<close> for a blank name
  before any code is computed.
\<close>

theorem generateSku_empty_counterexample:
  "generateSkuPreview [] None None \<noteq> ''PPPP''"
  by (simp add: sku_eval)

text \<open>
  Claim C3, amended: the empty product name with no colour and no size gives \<open>PROD\<close>;
  whenever the product name is not blank and the computed code (initials and numbers,
  cut to 10 characters) has fewer than 2 characters, the code is right-padded with
  \<open>P\<close> to length 4: upper-cased, it is the result when there is no colour and no size,
  and the first four characters of the result in any case.
\<close>

theorem generateSku_padding:
  assumes "trim productName \<noteq> []" and "length (skuCodeRaw productName) < 2"
  shows "generateSkuPreview [] None None = ''PROD''
    \<and> skuCode productName
        = skuCodeRaw productName @ replicate (4 - length (skuCodeRaw productName)) (CHR ''P'')
    \<and> length (skuCode productName) = 4
    \<and> generateSkuPreview productName None None = toUpperCase (skuCode productName)
    \<and> take 4 (generateSkuPreview productName color size')
        = toUpperCase (skuCodeRaw productName)
          @ replicate (4 - length (skuCodeRaw productName)) (CHR ''P'')"
proof -
  let ?raw = "skuCodeRaw productName"
  have empty: "generateSkuPreview [] None None = ''PROD''"
    by (simp add: generateSkuPreview_def trim_def)
  have code: "skuCode productName = ?raw @ replicate (4 - length ?raw) (CHR ''P'')"
    using assms(2) by (simp add: skuCode_def padEnd_def Let_def)
  have len: "length (skuCode productName) = 4"
    using assms(2) by (simp add: code)
  have plain: "generateSkuPreview productName None None = toUpperCase (skuCode productName)"
    using assms(1) by (simp add: generateSkuPreview_def colorParts_def sizeParts_def)
  have "take (length (toUpperCase (skuCode productName)))
          (generateSkuPreview productName color size')
        = toUpperCase (skuCode productName)"
    using assms(1) by (simp add: generateSkuPreview_def joinWith_take del: joinWith.simps)
  then have "take 4 (generateSkuPreview productName color size')
        = toUpperCase (skuCode productName)"
    by (simp add: length_toUpperCase len)
  then have pre: "take 4 (generateSkuPreview productName color size')
        = toUpperCase ?raw @ replicate (4 - length ?raw) (CHR ''P'')"
    by (simp add: code toUpperCase_pad)
  from empty code len plain pre show ?thesis by blast
qed

theorem generateSku_padding_witness:
  "trim ''-'' \<noteq> [] \<and> length (skuCodeRaw ''-'') < 2
   \<and> generateSkuPreview ''-'' None None = ''PPPP''
   \<and> take 4 (generateSkuPreview ''-'' (Some ''Red'') (Some ''Large'')) = ''PPPP''
   \<and> generateSkuPreview ''-'' (Some ''Red'') (Some ''Large'') = ''PPPP-RED-L''"
proof -
  have h1: "trim ''-'' \<noteq> []" by (simp add: sku_eval)
  have h2: "length (skuCodeRaw ''-'') < 2" by (simp add: sku_eval)
  have raw: "skuCodeRaw ''-'' = []" by (simp add: sku_eval)
  have full: "generateSkuPreview ''-'' (Some ''Red'') (Some ''Large'') = ''PPPP-RED-L''"
    by code_simp
  have pad: "replicate 4 (CHR ''P'') = ''PPPP''"
    by (simp add: numeral_eq_Suc)
  from generateSku_padding [OF h1 h2, of "Some ''Red''" "Some ''Large''"] h1 h2 full
  show ?thesis
    by (simp add: raw toUpperCase_def pad upperChar_def lowerLetters_def upperLetters_def)
qed

text \<open>
  Claim C10: whenever the product name is empty or consists only of whitespace, the
  result is exactly \<open>PROD\<close>, whatever the colour and the size are: neither their
  segments nor the padding are applied. For the empty name with colour \<open>Red\<close> and size
  \<open>Large\<close> the result is \<open>PROD\<close>, not \<open>PPPP-RED-L\<close>.
\<close>

theorem generateSku_blank_name:
  assumes "list_all isSpace productName"
  shows "generateSkuPreview productName color size' = ''PROD''
    \<and> generateSkuPreview [] (Some ''Red'') (Some ''Large'') = ''PROD''
    \<and> generateSkuPreview [] (Some ''Red'') (Some ''Large'') \<noteq> ''PPPP-RED-L''"
  using assms by (simp add: generateSkuPreview_def trim_all_space)

theorem generateSku_blank_name_witness:
  "list_all isSpace ''  ''
   \<and> generateSkuPreview ''  '' (Some ''Blue'') (Some ''XXL'') = ''PROD''"
proof -
  have h: "list_all isSpace ''  ''" by (simp add: isSpace_def)
  from generateSku_blank_name [OF h, of "Some ''Blue''" "Some ''XXL''"] h
  show ?thesis by simp
qed

section \<open>Properties of the product listing\<close>

subsection \<open>Auxiliary facts\<close>

lemma foldl_add_sum: "foldl (\<lambda>a v. a + f v) (a0::int) xs = a0 + sum_list (map f xs)"
  by (induction xs arbitrary: a0) simp_all

lemma availableOrZero_eq:
  "availableOrZero r = (case r of None \<Rightarrow> 0 | Some i \<Rightarrow> quantityAvailable i)"
  by (simp add: availableOrZero_def split: option.splits)

lemma getTotalStock_eq:
  "getTotalStock cache variants =
     sum_list (map (\<lambda>v. case cache (sku v) of None \<Rightarrow> 0 | Some i \<Rightarrow> quantityAvailable i) variants)"
  by (simp add: getTotalStock_def foldl_add_sum availableOrZero_eq Let_def)

lemma cache_toggleExpand: "inventoryCache (toggleExpand s p vs) = inventoryCache s"
  by (simp add: toggleExpand_def Let_def)

lemma dom_cache_resume: "dom (inventoryCache s) \<subseteq> dom (inventoryCache (toggleExpandResume s i res))"
  by (cases res) (auto simp: toggleExpandResume_def Let_def)

lemma dom_cache_step: "dom (inventoryCache s) \<subseteq> dom (inventoryCache (step s e))"
  by (cases e) (simp_all add: cache_toggleExpand dom_cache_resume)

lemma dom_cache_run: "dom (inventoryCache s) \<subseteq> dom (inventoryCache (run s es))"
proof (induction es arbitrary: s)
  case Nil
  show ?case by simp
next
  case (Cons e es)
  have "dom (inventoryCache s) \<subseteq> dom (inventoryCache (step s e))" by (rule dom_cache_step)
  also have "\<dots> \<subseteq> dom (inventoryCache (run (step s e) es))" by (rule Cons.IH)
  finally show ?case by simp
qed

lemma set_skusToFetch:
  "set (skusToFetch cache variants) = {k \<in> sku ` set variants. k \<noteq> []} - dom cache"
  by (auto simp: skusToFetch_def)

lemma calls_toggleExpand:
  "getBatchCalls (toggleExpand s p vs) =
     (if p \<in> expandedProducts s \<or> skusToFetch (inventoryCache s) vs = [] then getBatchCalls s
      else getBatchCalls s @ [skusToFetch (inventoryCache s) vs])"
  by (simp add: toggleExpand_def Let_def)

lemma calls_resume: "getBatchCalls (toggleExpandResume s i res) = getBatchCalls s"
  by (cases res) (simp_all add: toggleExpandResume_def Let_def)

lemma calls_step:
  "\<exists>cs. getBatchCalls (step s e) = getBatchCalls s @ cs
     \<and> (\<forall>c\<in>set cs. set c \<inter> dom (inventoryCache s) = {})"
proof (cases e)
  case (Toggle p vs)
  show ?thesis
  proof (cases "p \<in> expandedProducts s \<or> skusToFetch (inventoryCache s) vs = []")
    case True
    then show ?thesis using Toggle by (auto simp: calls_toggleExpand)
  next
    case False
    then have "getBatchCalls (step s e) = getBatchCalls s @ [skusToFetch (inventoryCache s) vs]"
      using Toggle by (simp add: calls_toggleExpand)
    moreover have "set (skusToFetch (inventoryCache s) vs) \<inter> dom (inventoryCache s) = {}"
      by (auto simp: set_skusToFetch)
    ultimately show ?thesis by simp
  qed
next
  case (Settle i res)
  then show ?thesis by (simp add: calls_resume)
qed

lemma calls_run:
  "\<exists>cs. getBatchCalls (run s es) = getBatchCalls s @ cs
     \<and> (\<forall>c\<in>set cs. set c \<inter> dom (inventoryCache s) = {})"
proof (induction es arbitrary: s)
  case Nil
  show ?case by simp
next
  case (Cons e es)
  obtain cs1 where 1: "getBatchCalls (step s e) = getBatchCalls s @ cs1"
    and d1: "\<forall>c\<in>set cs1. set c \<inter> dom (inventoryCache s) = {}"
    using calls_step by blast
  obtain cs2 where 2: "getBatchCalls (run (step s e) es) = getBatchCalls (step s e) @ cs2"
    and d2: "\<forall>c\<in>set cs2. set c \<inter> dom (inventoryCache (step s e)) = {}"
    using Cons.IH by blast
  have "\<forall>c\<in>set cs2. set c \<inter> dom (inventoryCache s) = {}"
    using d2 dom_cache_step [of s e] by blast
  with d1 have "\<forall>c\<in>set (cs1 @ cs2). set c \<inter> dom (inventoryCache s) = {}" by auto
  moreover have "getBatchCalls (run s (e # es)) = getBatchCalls s @ (cs1 @ cs2)"
    using 1 2 by simp
  ultimately show ?case by blast
qed

lemmas page_eval =
  toggleExpand_def toggleExpandResume_def skusToFetch_def initialState_def variantOf_def
  stockRecord_def hasInventoryLoaded_def Let_def

lemma requestsOk_initial: "requestsOk initialState"
  by (simp add: requestsOk_def initialState_def)

lemma requestsOk_toggleExpand: "requestsOk s \<Longrightarrow> requestsOk (toggleExpand s p vs)"
  by (simp add: requestsOk_def toggleExpand_def Let_def)

lemma requestsOk_resume: "requestsOk s \<Longrightarrow> requestsOk (toggleExpandResume s i res)"
  by (cases res)
     (auto simp: requestsOk_def toggleExpandResume_def Let_def list_all_iff
           dest: in_set_takeD in_set_dropD)

lemma requestsOk_step: "requestsOk s \<Longrightarrow> requestsOk (step s e)"
  by (cases e) (simp_all add: requestsOk_toggleExpand requestsOk_resume)

lemma requestsOk_run: "requestsOk s \<Longrightarrow> requestsOk (run s es)"
  by (induction es arbitrary: s) (simp_all add: requestsOk_step)

lemma resume_rejected:
  "i < length (inFlight s) \<Longrightarrow>
   inventoryCache (toggleExpandResume s i Rejected) = inventoryCache s
   \<and> expandedProducts (toggleExpandResume s i Rejected) = reqNewExpanded (inFlight s ! i)
   \<and> loadingInventory (toggleExpandResume s i Rejected)
       = loadingInventory s - {reqProductId (inFlight s ! i)}"
  by (simp add: toggleExpandResume_def Let_def)

lemma inFlight_toggleExpand:
  "inFlight (toggleExpand s p vs) =
     (if p \<in> expandedProducts s \<or> skusToFetch (inventoryCache s) vs = [] then inFlight s
      else inFlight s @ [\<lparr>reqProductId = p, reqSkus = skusToFetch (inventoryCache s) vs,
                          reqNewExpanded = insert p (expandedProducts s)\<rparr>])"
  by (simp add: toggleExpand_def Let_def)

lemma cache_resume_resolved:
  "i < length (inFlight s) \<Longrightarrow>
   inventoryCache (toggleExpandResume s i (Resolved inventoryData))
     = inventoryCache s ++ inventoryData"
  by (simp add: toggleExpandResume_def Let_def)

lemma hasInventoryLoaded_iff:
  "hasInventoryLoaded cache variants = list_all (\<lambda>v. sku v \<in> dom cache) variants"
  by (cases variants) (simp_all add: hasInventoryLoaded_def)

lemma toggleExpand_cached:
  assumes "list_all (\<lambda>v. sku v \<in> dom (inventoryCache s)) variants"
  shows "skusToFetch (inventoryCache s) variants = []"
  using assms by (auto simp: skusToFetch_def list_all_iff filter_empty_conv)

subsection \<open>The claims\<close>

text \<open>
  Claim C1: for every list of variants and every cache, \<open>getTotalStock\<close> is the sum over
  the variants of the cached \<open>quantityAvailable\<close> of the variant's SKU, a variant whose
  SKU is not in the cache counting 0, and it is 0 for the empty list. With X (5
  available) and Y (3 available) both cached the total is 8; with Y absent it is 5 and
  \<open>hasInventoryLoaded\<close> is false.
\<close>

theorem getTotalStock_sums_cache:
  assumes "sku vx = ''X''" and "sku vy = ''Y''"
    and "quantityAvailable ix = 5" and "quantityAvailable iy = 3"
  shows "getTotalStock cache variants =
      (\<Sum>v\<leftarrow>variants. case cache (sku v) of None \<Rightarrow> 0 | Some i \<Rightarrow> quantityAvailable i)
    \<and> getTotalStock cache [] = 0
    \<and> getTotalStock [''X'' \<mapsto> ix, ''Y'' \<mapsto> iy] [vx, vy] = 8
    \<and> getTotalStock [''X'' \<mapsto> ix] [vx, vy] = 5
    \<and> \<not> hasInventoryLoaded [''X'' \<mapsto> ix] [vx, vy]"
  using assms by (simp add: getTotalStock_eq hasInventoryLoaded_def)

theorem getTotalStock_sums_cache_witness:
  "getTotalStock [''X'' \<mapsto> stockRecord ''X'' 5 0, ''Y'' \<mapsto> stockRecord ''Y'' 3 1]
      [variantOf ''X'', variantOf ''Y'', variantOf ''Z''] = 8
   \<and> getTotalStock [''X'' \<mapsto> stockRecord ''X'' 5 0] [variantOf ''X'', variantOf ''Y''] = 5
   \<and> \<not> hasInventoryLoaded [''X'' \<mapsto> stockRecord ''X'' 5 0] [variantOf ''X'', variantOf ''Y'']"
proof -
  have h: "sku (variantOf ''X'') = ''X''" "sku (variantOf ''Y'') = ''Y''"
    "quantityAvailable (stockRecord ''X'' 5 0) = 5" "quantityAvailable (stockRecord ''Y'' 3 1) = 3"
    by (simp_all add: variantOf_def stockRecord_def)
  from getTotalStock_sums_cache [OF h, of "[''X'' \<mapsto> stockRecord ''X'' 5 0, ''Y'' \<mapsto> stockRecord ''Y'' 3 1]"
      "[variantOf ''X'', variantOf ''Y'', variantOf ''Z'']"]
  show ?thesis by (simp add: variantOf_def stockRecord_def)
qed

text \<open>
  Claim C4: for every state and every list of variants, expanding a product computes
  the missing set as the requested SKUs minus the keys of the cache; when it is empty
  no call is made, and otherwise exactly one \<open>getBatch\<close> call is made, whose argument has
  exactly the missing SKUs. The requested SKUs are the SKUs of the variants that have
  one: a variant without an SKU has the empty string there, which the filter
  (\<open>v.sku &&\<close>) skips, and when every variant has an SKU they are the SKUs of all the
  variants. With \<open>A-1\<close> cached, expanding a product with SKUs \<open>A-1\<close> and \<open>B-2\<close> makes
  one call, for \<open>B-2\<close> only.
\<close>

theorem toggleExpand_fetches_missing:
  assumes "productId \<notin> expandedProducts s"
  shows "set (skusToFetch (inventoryCache s) variants)
      = {k \<in> sku ` set variants. k \<noteq> []} - dom (inventoryCache s)
    \<and> (list_all (\<lambda>v. sku v \<noteq> []) variants \<longrightarrow>
        set (skusToFetch (inventoryCache s) variants)
          = sku ` set variants - dom (inventoryCache s))
    \<and> getBatchCalls (toggleExpand s productId variants)
        = (if skusToFetch (inventoryCache s) variants = [] then getBatchCalls s
           else getBatchCalls s @ [skusToFetch (inventoryCache s) variants])
    \<and> getBatchCalls (toggleExpand
          (initialState\<lparr>inventoryCache := [''A-1'' \<mapsto> stockRecord ''A-1'' 5 0]\<rparr>) ''p1''
          [variantOf ''A-1'', variantOf ''B-2'']) = [[''B-2'']]"
proof -
  have ex: "getBatchCalls (toggleExpand
          (initialState\<lparr>inventoryCache := [''A-1'' \<mapsto> stockRecord ''A-1'' 5 0]\<rparr>) ''p1''
          [variantOf ''A-1'', variantOf ''B-2'']) = [[''B-2'']]"
    by (simp add: page_eval)
  have all: "set (skusToFetch (inventoryCache s) variants)
          = sku ` set variants - dom (inventoryCache s)"
    if "list_all (\<lambda>v. sku v \<noteq> []) variants"
    using that by (auto simp: set_skusToFetch list_all_iff)
  from assms ex all show ?thesis
    by (simp add: set_skusToFetch calls_toggleExpand)
qed

theorem toggleExpand_fetches_missing_witness:
  "''p2'' \<notin> expandedProducts (initialState\<lparr>inventoryCache := [''A-1'' \<mapsto> stockRecord ''A-1'' 5 0]\<rparr>)
   \<and> list_all (\<lambda>v. sku v \<noteq> []) [variantOf ''A-1'', variantOf ''B-2'']
   \<and> sku ` set [variantOf ''A-1'', variantOf ''B-2'']
        - dom [''A-1'' \<mapsto> stockRecord ''A-1'' 5 0] = {''B-2''}
   \<and> set (skusToFetch [''A-1'' \<mapsto> stockRecord ''A-1'' 5 0]
          [variantOf ''A-1'', variantOf ''B-2'']) = {''B-2''}
   \<and> getBatchCalls (toggleExpand
          (initialState\<lparr>inventoryCache := [''A-1'' \<mapsto> stockRecord ''A-1'' 5 0]\<rparr>) ''p2''
          [variantOf ''A-1'', variantOf ''B-2'']) = [[''B-2'']]
   \<and> set (skusToFetch [''A-1'' \<mapsto> stockRecord ''A-1'' 5 0]
          [variantOf ''A-1'', variantOf ''B-2'', variantOf []]) = {''B-2''}
   \<and> getBatchCalls (toggleExpand
          (initialState\<lparr>inventoryCache := [''A-1'' \<mapsto> stockRecord ''A-1'' 5 0]\<rparr>) ''p2''
          [variantOf ''A-1'', variantOf ''B-2'', variantOf []]) = [[''B-2'']]"
proof -
  let ?s = "initialState\<lparr>inventoryCache := [''A-1'' \<mapsto> stockRecord ''A-1'' 5 0]\<rparr>"
  have h: "''p2'' \<notin> expandedProducts ?s" by (simp add: initialState_def)
  have c: "inventoryCache ?s = [''A-1'' \<mapsto> stockRecord ''A-1'' 5 0]" by simp
  have a: "list_all (\<lambda>v. sku v \<noteq> []) [variantOf ''A-1'', variantOf ''B-2'']"
    by (simp add: variantOf_def)
  have d: "sku ` set [variantOf ''A-1'', variantOf ''B-2'']
        - dom [''A-1'' \<mapsto> stockRecord ''A-1'' 5 0] = {''B-2''}"
    by (auto simp: variantOf_def)
  have k2: "skusToFetch (inventoryCache ?s) [variantOf ''A-1'', variantOf ''B-2''] = [''B-2'']"
    by (simp add: page_eval)
  have k3: "skusToFetch (inventoryCache ?s) [variantOf ''A-1'', variantOf ''B-2'', variantOf []]
      = [''B-2'']"
    by (simp add: page_eval)
  have g: "getBatchCalls ?s = []" by (simp add: initialState_def)
  from toggleExpand_fetches_missing [OF h, of "[variantOf ''A-1'', variantOf ''B-2'']"]
  have "getBatchCalls (toggleExpand ?s ''p2'' [variantOf ''A-1'', variantOf ''B-2''])
      = (if skusToFetch (inventoryCache ?s) [variantOf ''A-1'', variantOf ''B-2''] = []
         then getBatchCalls ?s
         else getBatchCalls ?s
           @ [skusToFetch (inventoryCache ?s) [variantOf ''A-1'', variantOf ''B-2'']])"
    by blast
  then have c2: "getBatchCalls (toggleExpand ?s ''p2'' [variantOf ''A-1'', variantOf ''B-2''])
      = [[''B-2'']]"
    by (simp only: k2 g) simp
  from toggleExpand_fetches_missing [OF h, of "[variantOf ''A-1'', variantOf ''B-2'', variantOf []]"]
  have "getBatchCalls (toggleExpand ?s ''p2'' [variantOf ''A-1'', variantOf ''B-2'', variantOf []])
      = (if skusToFetch (inventoryCache ?s) [variantOf ''A-1'', variantOf ''B-2'', variantOf []] = []
         then getBatchCalls ?s
         else getBatchCalls ?s
           @ [skusToFetch (inventoryCache ?s) [variantOf ''A-1'', variantOf ''B-2'', variantOf []]])"
    by blast
  then have c3: "getBatchCalls (toggleExpand ?s ''p2''
        [variantOf ''A-1'', variantOf ''B-2'', variantOf []]) = [[''B-2'']]"
    by (simp only: k3 g) simp
  have s2: "set (skusToFetch [''A-1'' \<mapsto> stockRecord ''A-1'' 5 0]
          [variantOf ''A-1'', variantOf ''B-2'']) = {''B-2''}"
    using k2 by (simp only: c) simp
  have s3: "set (skusToFetch [''A-1'' \<mapsto> stockRecord ''A-1'' 5 0]
          [variantOf ''A-1'', variantOf ''B-2'', variantOf []]) = {''B-2''}"
    using k3 by (simp only: c) simp
  from h a d s2 c2 s3 c3 show ?thesis by blast
qed

text \<open>
  Claim C5, as the specification states it: in every interleaving of toggles and fetch
  completions no SKU is the subject of two outstanding fetches. The source keeps no
  record of the SKUs being fetched, and a product is added to \<open>expandedProducts\<close> only
  after its fetch has settled: a second click on the same row while its fetch is
  outstanding takes the expand branch again and requests the same SKUs again.
\<close>

theorem inflight_duplicate_counterexample:
  "map reqSkus (inFlight (run initialState
       [Toggle ''p1'' [variantOf ''A-1''], Toggle ''p1'' [variantOf ''A-1'']]))
     = [[''A-1''], [''A-1'']]"
  by (simp add: page_eval)

text \<open>
  Claim C5, amended: in every interleaving of toggles and fetch completions, no call
  made after an SKU has entered the cache requests that SKU (a call only requests SKUs
  that are not in the cache when it is made, and the cache never loses a key). SKUs
  with a fetch in flight are not tracked: a toggle of a product that is not expanded
  requests every non-empty SKU of its variants that is not cached, so the number of
  outstanding requests for such an SKU grows by one, whatever is already in flight.
\<close>

theorem cached_sku_never_refetched:
  "(k \<in> dom (inventoryCache s) \<longrightarrow>
      list_all (\<lambda>c. k \<notin> set c) (drop (length (getBatchCalls s)) (getBatchCalls (run s es))))
   \<and> (productId \<notin> expandedProducts s \<and> v \<in> set variants \<and> sku v \<noteq> []
        \<and> inventoryCache s (sku v) = None \<longrightarrow>
      length (filter (\<lambda>r. sku v \<in> set (reqSkus r)) (inFlight (toggleExpand s productId variants)))
        = Suc (length (filter (\<lambda>r. sku v \<in> set (reqSkus r)) (inFlight s))))"
proof -
  obtain cs where cs: "getBatchCalls (run s es) = getBatchCalls s @ cs"
    and dis: "\<forall>c\<in>set cs. set c \<inter> dom (inventoryCache s) = {}"
    using calls_run by blast
  have a: "list_all (\<lambda>c. k \<notin> set c) (drop (length (getBatchCalls s)) (getBatchCalls (run s es)))"
    if "k \<in> dom (inventoryCache s)"
    using that dis by (auto simp: cs list_all_iff)
  have b: "length (filter (\<lambda>r. sku v \<in> set (reqSkus r)) (inFlight (toggleExpand s productId variants)))
        = Suc (length (filter (\<lambda>r. sku v \<in> set (reqSkus r)) (inFlight s)))"
    if h: "productId \<notin> expandedProducts s" "v \<in> set variants" "sku v \<noteq> []"
      "inventoryCache s (sku v) = None"
  proof -
    from h have mem: "sku v \<in> set (skusToFetch (inventoryCache s) variants)"
      by (auto simp: set_skusToFetch)
    then have "skusToFetch (inventoryCache s) variants \<noteq> []" by auto
    with h(1) mem show ?thesis by (simp add: inFlight_toggleExpand)
  qed
  from a b show ?thesis by blast
qed

theorem cached_sku_never_refetched_witness:
  "''A-1'' \<in> dom (inventoryCache (initialState\<lparr>inventoryCache := [''A-1'' \<mapsto> stockRecord ''A-1'' 5 0]\<rparr>))
   \<and> getBatchCalls (run (initialState\<lparr>inventoryCache := [''A-1'' \<mapsto> stockRecord ''A-1'' 5 0]\<rparr>)
        [Toggle ''p1'' [variantOf ''A-1'', variantOf ''B-2''],
         Toggle ''p1'' [variantOf ''A-1'', variantOf ''B-2'']]) = [[''B-2''], [''B-2'']]
   \<and> length (filter (\<lambda>r. ''B-2'' \<in> set (reqSkus r))
        (inFlight (run (initialState\<lparr>inventoryCache := [''A-1'' \<mapsto> stockRecord ''A-1'' 5 0]\<rparr>)
        [Toggle ''p1'' [variantOf ''A-1'', variantOf ''B-2''],
         Toggle ''p1'' [variantOf ''A-1'', variantOf ''B-2'']]))) = 2"
proof -
  let ?s = "initialState\<lparr>inventoryCache := [''A-1'' \<mapsto> stockRecord ''A-1'' 5 0]\<rparr>"
  let ?vs = "[variantOf ''A-1'', variantOf ''B-2'']"
  let ?s1 = "toggleExpand ?s ''p1'' ?vs"
  have h1: "''A-1'' \<in> dom (inventoryCache ?s)" by simp
  have h2: "''p1'' \<notin> expandedProducts ?s1 \<and> variantOf ''B-2'' \<in> set ?vs \<and> sku (variantOf ''B-2'') \<noteq> []
     \<and> inventoryCache ?s1 (sku (variantOf ''B-2'')) = None"
    by (simp add: page_eval)
  have calls: "getBatchCalls (run ?s [Toggle ''p1'' ?vs, Toggle ''p1'' ?vs]) = [[''B-2''], [''B-2'']]"
    by (simp add: page_eval)
  have one: "length (filter (\<lambda>r. ''B-2'' \<in> set (reqSkus r)) (inFlight ?s1)) = 1"
    by (simp add: page_eval)
  have sk: "sku (variantOf ''B-2'') = ''B-2''" by (simp add: variantOf_def)
  from cached_sku_never_refetched [of "''A-1''" ?s "[Toggle ''p1'' ?vs, Toggle ''p1'' ?vs]" "''p1''" "variantOf ''B-2''" ?vs]
    cached_sku_never_refetched [of "''A-1''" ?s1 "[]" "''p1''" "variantOf ''B-2''" ?vs] h1 h2 calls one sk
  show ?thesis by simp
qed

text \<open>
  Claim C6, as the specification states it: once the fetch for a product's missing SKUs
  has succeeded, \<open>hasInventoryLoaded\<close> is true for its variants, also when the response
  omits requested SKUs. The source records nothing for an omitted SKU: the response is
  merged into the cache as it is, and \<open>hasInventoryLoaded\<close> asks for every SKU to be a
  key of the cache. With \<open>A-1\<close> and \<open>B-2\<close> requested and only \<open>A-1\<close> returned, it is
  false.
\<close>

theorem omitted_sku_counterexample:
  "\<not> hasInventoryLoaded
       (inventoryCache (run initialState
          [Toggle ''p1'' [variantOf ''A-1'', variantOf ''B-2''],
           Settle 0 (Resolved [''A-1'' \<mapsto> stockRecord ''A-1'' 5 0])]))
       [variantOf ''A-1'', variantOf ''B-2'']"
  by (simp add: page_eval)

text \<open>
  Claim C6, amended: after a fetch has completed successfully, \<open>hasInventoryLoaded\<close> is
  true for a variant list exactly when every SKU of it is a key of the previous cache or
  of the response; a variant whose SKU the response omits, and that was not cached,
  keeps it false.
\<close>

theorem hasInventoryLoaded_after_fetch:
  assumes "i < length (inFlight s)"
  shows "(hasInventoryLoaded (inventoryCache (toggleExpandResume s i (Resolved inventoryData)))
        variants
      \<longleftrightarrow> list_all (\<lambda>v. sku v \<in> dom (inventoryCache s) \<union> dom inventoryData) variants)
    \<and> (v \<in> set variants \<and> sku v \<notin> dom (inventoryCache s) \<and> sku v \<notin> dom inventoryData \<longrightarrow>
        \<not> hasInventoryLoaded (inventoryCache (toggleExpandResume s i (Resolved inventoryData)))
            variants)"
  using assms
  by (auto simp: cache_resume_resolved hasInventoryLoaded_iff list_all_iff)

theorem hasInventoryLoaded_after_fetch_witness:
  "0 < length (inFlight (toggleExpand initialState ''p1'' [variantOf ''A-1'', variantOf ''B-2'']))
   \<and> hasInventoryLoaded (inventoryCache (toggleExpandResume
         (toggleExpand initialState ''p1'' [variantOf ''A-1'', variantOf ''B-2'']) 0
         (Resolved [''A-1'' \<mapsto> stockRecord ''A-1'' 5 0, ''B-2'' \<mapsto> stockRecord ''B-2'' 0 0])))
       [variantOf ''A-1'', variantOf ''B-2'']
   \<and> \<not> hasInventoryLoaded (inventoryCache (toggleExpandResume
         (toggleExpand initialState ''p1'' [variantOf ''A-1'', variantOf ''B-2'']) 0
         (Resolved [''A-1'' \<mapsto> stockRecord ''A-1'' 5 0])))
       [variantOf ''A-1'', variantOf ''B-2'']"
proof -
  let ?vs = "[variantOf ''A-1'', variantOf ''B-2'']"
  let ?s = "toggleExpand initialState ''p1'' ?vs"
  have h: "0 < length (inFlight ?s)" by (simp add: page_eval)
  have c: "inventoryCache ?s = Map.empty" by (simp add: page_eval)
  have sk: "sku (variantOf ''A-1'') = ''A-1''" "sku (variantOf ''B-2'') = ''B-2''"
    by (simp_all add: variantOf_def)
  from hasInventoryLoaded_after_fetch [OF h, of "[''A-1'' \<mapsto> stockRecord ''A-1'' 5 0, ''B-2'' \<mapsto> stockRecord ''B-2'' 0 0]" ?vs]
    hasInventoryLoaded_after_fetch [OF h, of "[''A-1'' \<mapsto> stockRecord ''A-1'' 5 0]" ?vs "variantOf ''B-2''"] h
  show ?thesis by (simp add: c sk)
qed

text \<open>
  Claim C7: if the batch fetch fails, the cache is unchanged and the toggled product is
  expanded. This holds for every in-flight request of every state the page can reach,
  whatever happened between the toggle and the failure; and for a toggle whose fetch
  fails at once, the cache is the one before the toggle, the requested SKUs are still
  absent from it, and the product is expanded.
\<close>

theorem fetch_failure_keeps_cache:
  assumes "i < length (inFlight (run initialState es))"
  shows "inventoryCache (toggleExpandResume (run initialState es) i Rejected)
      = inventoryCache (run initialState es)
    \<and> reqProductId (inFlight (run initialState es) ! i)
        \<in> expandedProducts (toggleExpandResume (run initialState es) i Rejected)
    \<and> (productId \<notin> expandedProducts s \<and> skusToFetch (inventoryCache s) variants \<noteq> [] \<longrightarrow>
         inventoryCache (toggleExpandResume (toggleExpand s productId variants)
             (length (inFlight s)) Rejected) = inventoryCache s
         \<and> productId \<in> expandedProducts (toggleExpandResume (toggleExpand s productId variants)
             (length (inFlight s)) Rejected)
         \<and> list_all (\<lambda>k. inventoryCache (toggleExpandResume (toggleExpand s productId variants)
             (length (inFlight s)) Rejected) k = None) (skusToFetch (inventoryCache s) variants))"
proof -
  let ?s = "run initialState es"
  have "requestsOk ?s"
    by (rule requestsOk_run) (rule requestsOk_initial)
  with assms have ok: "reqProductId (inFlight ?s ! i) \<in> reqNewExpanded (inFlight ?s ! i)"
    by (simp add: requestsOk_def list_all_length)
  have a: "inventoryCache (toggleExpandResume ?s i Rejected) = inventoryCache ?s"
    using assms by (simp add: resume_rejected)
  have b: "reqProductId (inFlight ?s ! i) \<in> expandedProducts (toggleExpandResume ?s i Rejected)"
    using assms ok by (simp add: resume_rejected)
  have c: "inventoryCache (toggleExpandResume (toggleExpand s productId variants)
             (length (inFlight s)) Rejected) = inventoryCache s
         \<and> productId \<in> expandedProducts (toggleExpandResume (toggleExpand s productId variants)
             (length (inFlight s)) Rejected)
         \<and> list_all (\<lambda>k. inventoryCache (toggleExpandResume (toggleExpand s productId variants)
             (length (inFlight s)) Rejected) k = None) (skusToFetch (inventoryCache s) variants)"
    if h: "productId \<notin> expandedProducts s" "skusToFetch (inventoryCache s) variants \<noteq> []"
  proof -
    let ?t = "toggleExpand s productId variants"
    have len: "length (inFlight ?t) = Suc (length (inFlight s))"
      and req: "inFlight ?t ! length (inFlight s)
          = \<lparr>reqProductId = productId, reqSkus = skusToFetch (inventoryCache s) variants,
             reqNewExpanded = insert productId (expandedProducts s)\<rparr>"
      using h by (simp_all add: toggleExpand_def Let_def)
    have lt: "length (inFlight s) < length (inFlight ?t)" using len by simp
    have c1: "inventoryCache (toggleExpandResume ?t (length (inFlight s)) Rejected) = inventoryCache s"
      using resume_rejected [OF lt] by (simp add: cache_toggleExpand)
    have c2: "productId \<in> expandedProducts (toggleExpandResume ?t (length (inFlight s)) Rejected)"
      using resume_rejected [OF lt] req by simp
    have c3: "list_all (\<lambda>k. inventoryCache s k = None) (skusToFetch (inventoryCache s) variants)"
      by (auto simp: list_all_iff skusToFetch_def)
    from c1 c2 c3 show ?thesis by simp
  qed
  from a b c show ?thesis by blast
qed

theorem fetch_failure_keeps_cache_witness:
  "0 < length (inFlight (run initialState [Toggle ''p1'' [variantOf ''A-1'']]))
   \<and> inventoryCache (toggleExpandResume (run initialState [Toggle ''p1'' [variantOf ''A-1'']]) 0 Rejected) ''A-1'' = None
   \<and> ''p1'' \<in> expandedProducts (toggleExpandResume (run initialState [Toggle ''p1'' [variantOf ''A-1'']]) 0 Rejected)"
proof -
  have h: "0 < length (inFlight (run initialState [Toggle ''p1'' [variantOf ''A-1'']]))"
    by (simp add: page_eval)
  have r: "reqProductId (inFlight (run initialState [Toggle ''p1'' [variantOf ''A-1'']]) ! 0) = ''p1''"
    by (simp add: page_eval)
  have c: "inventoryCache (run initialState [Toggle ''p1'' [variantOf ''A-1'']]) ''A-1'' = None"
    by (simp add: page_eval)
  from fetch_failure_keeps_cache [OF h] h r c show ?thesis by simp
qed

text \<open>
  Claim C8: for an expanded product whose variant SKUs are all in the cache, collapsing
  removes no cache entry and makes no call, and the expansion that follows finds nothing
  to fetch: it makes no call, starts no request, leaves the cache as it was and expands
  the row. Whatever happens after the collapse, a later toggle of the product makes no
  call either.
\<close>

theorem collapse_reexpand_no_fetch:
  assumes "productId \<in> expandedProducts s"
    and "list_all (\<lambda>v. sku v \<in> dom (inventoryCache s)) variants"
  shows "productId \<notin> expandedProducts (toggleExpand s productId variants)
    \<and> inventoryCache (toggleExpand s productId variants) = inventoryCache s
    \<and> getBatchCalls (toggleExpand s productId variants) = getBatchCalls s
    \<and> skusToFetch (inventoryCache (toggleExpand s productId variants)) variants = []
    \<and> productId \<in> expandedProducts
         (toggleExpand (toggleExpand s productId variants) productId variants)
    \<and> getBatchCalls (toggleExpand (toggleExpand s productId variants) productId variants)
        = getBatchCalls s
    \<and> inFlight (toggleExpand (toggleExpand s productId variants) productId variants)
        = inFlight s
    \<and> inventoryCache (toggleExpand (toggleExpand s productId variants) productId variants)
        = inventoryCache s
    \<and> getBatchCalls (toggleExpand (run (toggleExpand s productId variants) es) productId variants)
        = getBatchCalls (run (toggleExpand s productId variants) es)"
proof -
  let ?s1 = "toggleExpand s productId variants"
  have e1: "expandedProducts ?s1 = expandedProducts s - {productId}"
    and c1: "inventoryCache ?s1 = inventoryCache s"
    and g1: "getBatchCalls ?s1 = getBatchCalls s"
    and f1: "inFlight ?s1 = inFlight s"
    using assms(1) by (simp_all add: toggleExpand_def)
  have none: "skusToFetch (inventoryCache s) variants = []"
    by (rule toggleExpand_cached) (rule assms(2))
  have n1: "productId \<notin> expandedProducts ?s1" by (simp add: e1)
  have s2: "toggleExpand ?s1 productId variants
      = ?s1\<lparr>expandedProducts := insert productId (expandedProducts ?s1)\<rparr>"
    using n1 none by (simp add: toggleExpand_def c1 Let_def)
  have later: "getBatchCalls (toggleExpand (run ?s1 es) productId variants)
      = getBatchCalls (run ?s1 es)"
  proof -
    have "dom (inventoryCache s) \<subseteq> dom (inventoryCache (run ?s1 es))"
      using dom_cache_run [of ?s1 es] by (simp add: c1)
    with assms(2) have "list_all (\<lambda>v. sku v \<in> dom (inventoryCache (run ?s1 es))) variants"
      by (auto simp: list_all_iff)
    then have "skusToFetch (inventoryCache (run ?s1 es)) variants = []"
      by (rule toggleExpand_cached)
    then show ?thesis by (simp add: calls_toggleExpand)
  qed
  show ?thesis
    using n1 c1 g1 f1 none later by (simp add: s2)
qed

theorem collapse_reexpand_no_fetch_witness:
  "''p1'' \<in> expandedProducts
      \<lparr>expandedProducts = {''p1''}, loadingInventory = {},
       inventoryCache = [''A-1'' \<mapsto> stockRecord ''A-1'' 5 0], inFlight = [],
       getBatchCalls = [[''A-1'']]\<rparr>
   \<and> list_all (\<lambda>v. sku v \<in> dom [''A-1'' \<mapsto> stockRecord ''A-1'' 5 0]) [variantOf ''A-1'']
   \<and> getBatchCalls (run
      \<lparr>expandedProducts = {''p1''}, loadingInventory = {},
       inventoryCache = [''A-1'' \<mapsto> stockRecord ''A-1'' 5 0], inFlight = [],
       getBatchCalls = [[''A-1'']]\<rparr>
      [Toggle ''p1'' [variantOf ''A-1''], Toggle ''p1'' [variantOf ''A-1'']]) = [[''A-1'']]"
proof -
  let ?s = "\<lparr>expandedProducts = {''p1''}, loadingInventory = {},
       inventoryCache = [''A-1'' \<mapsto> stockRecord ''A-1'' 5 0], inFlight = [],
       getBatchCalls = [[''A-1'']]\<rparr>"
  have h1: "''p1'' \<in> expandedProducts ?s" by simp
  have h2: "list_all (\<lambda>v. sku v \<in> dom (inventoryCache ?s)) [variantOf ''A-1'']"
    by (simp add: variantOf_def)
  from collapse_reexpand_no_fetch [OF h1 h2] h1 h2 show ?thesis by simp
qed

text \<open>
  Claim C9: for every quantity that is not negative, the badge is \<open>OutOfStock\<close> exactly
  when the quantity is 0, \<open>Low\<close> exactly when it is greater than 0 and less than 10, and
  \<open>InStock\<close> otherwise; the badge of 0 is \<open>OutOfStock\<close>, of 9 \<open>Low\<close>, of 10 \<open>InStock\<close>.
\<close>

theorem StockBadge_classification:
  assumes "0 \<le> quantity"
  shows "(StockBadge quantity = OutOfStock \<longleftrightarrow> quantity = 0)
    \<and> (StockBadge quantity = Low \<longleftrightarrow> 0 < quantity \<and> quantity < 10)
    \<and> (StockBadge quantity = InStock \<longleftrightarrow> quantity \<noteq> 0 \<and> \<not> (0 < quantity \<and> quantity < 10))
    \<and> StockBadge 0 = OutOfStock \<and> StockBadge 9 = Low \<and> StockBadge 10 = InStock"
  using assms by (auto simp: StockBadge_def)

theorem StockBadge_classification_witness:
  "(0::int) \<le> 9 \<and> StockBadge 9 = Low \<and> StockBadge 9 \<noteq> OutOfStock \<and> StockBadge 9 \<noteq> InStock"
  using StockBadge_classification [of 9] by simp

end
